theory Spec2Isabelle
  imports Complex_Main "HOL-Library.AList"
begin

section \<open>Artifact downloader: a shallow embedding of main.py\<close>

text \<open>
  The program is a sequence of HTTP calls, a polling loop and a zip extraction step.
  Everything outside the Python source (the remote API, the clock, the file system, the
  zipfile and pathlib libraries) is part of an explicit \<open>world\<close> value that every
  effectful function takes and returns. Exceptions are values of \<open>exn\<close>; a function that
  can raise returns an \<open>outcome\<close>. Calls of \<open>log.info\<close> and \<open>log.debug\<close> are left out;
  \<open>log.warning\<close>, \<open>log.error\<close>, \<open>send_notification\<close>, \<open>requests.get\<close> and
  \<open>time.sleep\<close> append an event to the trace of the world. Strings are byte strings,
  except in \<open>parse_run_url\<close>, where the pattern's classes need code points; the
  pictographs that start the notification titles are left out of the titles.
\<close>

subsection \<open>Exceptions, outcomes, JSON values\<close>

datatype exn =
  ValueError | HTTPError | RuntimeError | KeyError | BadZipFile | OSError | OverflowError
  | SystemExit nat

text \<open>
  \<open>OutOfScript\<close> is not a Python result: the remote API is a finite script of replies, and
  a function that needs a reply after the script has ended has not returned yet.
\<close>

datatype 'a outcome = Return 'a | Raise exn | OutOfScript

datatype json = JNull | JStr string | JInt int

type_synonym json_obj = "(string \<times> json) list"

text \<open>\<open>d.get(k)\<close>: Python's \<open>None\<close> (here \<open>JNull\<close>) for a missing key.\<close>

definition dict_get :: "json_obj \<Rightarrow> string \<Rightarrow> json" where
  "dict_get d k = (case map_of d k of None \<Rightarrow> JNull | Some v \<Rightarrow> v)"

text \<open>\<open>d[k]\<close> raises \<open>KeyError\<close> for a missing key.\<close>

definition has_key :: "json_obj \<Rightarrow> string \<Rightarrow> bool" where
  "has_key d k = (map_of d k \<noteq> None)"

datatype event =
  HttpGet string | Sleep int | Notify string | LogWarning string | LogError string

subsection \<open>The file system, pathlib and zipfile\<close>

text \<open>
  A path is the list of its components below the working directory (or below the
  temporary extraction directory); a file system is an association list from paths to
  nodes, enumerated by \<open>rglob\<close> and \<open>iterdir\<close> in its stored order.
\<close>

type_synonym path = "string list"

datatype node = File string | Dir

type_synonym fs = "(path \<times> node) list"

definition path_exists :: "fs \<Rightarrow> path \<Rightarrow> bool" where
  "path_exists t p = (p = [] \<or> map_of t p \<noteq> None)"

definition is_file :: "fs \<Rightarrow> path \<Rightarrow> bool" where
  "is_file t p = (case map_of t p of Some (File d) \<Rightarrow> True | _ \<Rightarrow> False)"

definition is_dir :: "fs \<Rightarrow> path \<Rightarrow> bool" where
  "is_dir t p = (p = [] \<or> map_of t p = Some Dir)"

definition name_of :: "path \<Rightarrow> string" where
  "name_of p = (if p = [] then [] else last p)"

text \<open>\<open>str.rfind('.')\<close>, with \<open>None\<close> for Python's -1.\<close>

definition rfind_dot :: "string \<Rightarrow> nat option" where
  "rfind_dot s =
     (if CHR ''.'' \<in> set s
      then Some (length s - 1 - length (takeWhile (\<lambda>c. c \<noteq> CHR ''.'') (rev s)))
      else None)"

text \<open>\<open>PurePath.suffix\<close> and \<open>PurePath.stem\<close> (CPython up to 3.13), on the final component.\<close>

definition suffix_of :: "string \<Rightarrow> string" where
  "suffix_of n =
     (case rfind_dot n of
        None \<Rightarrow> []
      | Some i \<Rightarrow> if 0 < i \<and> i < length n - 1 then drop i n else [])"

definition stem_of :: "string \<Rightarrow> string" where
  "stem_of n =
     (case rfind_dot n of
        None \<Rightarrow> n
      | Some i \<Rightarrow> if 0 < i \<and> i < length n - 1 then take i n else n)"

text \<open>\<open>Path.mkdir(parents=True, exist_ok=True)\<close>: the tree afterwards, and the error if any.\<close>

fun mkdirs :: "fs \<Rightarrow> path \<Rightarrow> path \<Rightarrow> fs \<times> exn option" where
  "mkdirs t pre [] = (t, None)"
| "mkdirs t pre (c # cs) =
     (case map_of t (pre @ [c]) of
        Some (File d) \<Rightarrow> (t, Some OSError)
      | Some Dir \<Rightarrow> mkdirs t (pre @ [c]) cs
      | None \<Rightarrow> mkdirs (t @ [(pre @ [c], Dir)]) (pre @ [c]) cs)"

definition mkdir_parents :: "fs \<Rightarrow> path \<Rightarrow> fs \<times> exn option" where
  "mkdir_parents t p = mkdirs t [] p"

text \<open>\<open>Path.rglob("*")\<close>: every path strictly below the directory.\<close>

definition rglob :: "fs \<Rightarrow> path \<Rightarrow> path list" where
  "rglob t d = [p \<leftarrow> map fst t. length d < length p \<and> take (length d) p = d]"

definition iterdir :: "fs \<Rightarrow> path \<Rightarrow> path list" where
  "iterdir t d = [p \<leftarrow> map fst t. p \<noteq> [] \<and> butlast p = d]"

text \<open>
  A zip member is a directory, a file with its bytes, or a file whose local header cannot
  be read (\<open>ZipFile.open\<close> raises \<open>BadZipFile\<close> for it after the parent directories were
  made). \<open>NotAZip\<close> is a payload whose central directory \<open>ZipFile(...)\<close> refuses.
\<close>

datatype zip_body = DirEntry | Data string | Corrupt

record zip_entry =
  ze_dirs :: "string list"
  ze_name :: string
  ze_body :: zip_body

datatype archive = NotAZip | Zip "zip_entry list"

definition extract_member :: "fs \<Rightarrow> path \<Rightarrow> zip_entry \<Rightarrow> fs \<times> exn option" where
  "extract_member t base e =
     (case mkdir_parents t (base @ ze_dirs e) of
        (t1, Some x) \<Rightarrow> (t1, Some x)
      | (t1, None) \<Rightarrow>
          (let target = base @ ze_dirs e @ [ze_name e] in
           case ze_body e of
             DirEntry \<Rightarrow>
               (case map_of t1 target of
                  Some (File d) \<Rightarrow> (t1, Some OSError)
                | Some Dir \<Rightarrow> (t1, None)
                | None \<Rightarrow> (t1 @ [(target, Dir)], None))
           | Corrupt \<Rightarrow> (t1, Some BadZipFile)
           | Data d \<Rightarrow>
               (if map_of t1 target = Some Dir then (t1, Some OSError)
                else (AList.update target (File d) t1, None))))"

fun extractall :: "fs \<Rightarrow> path \<Rightarrow> zip_entry list \<Rightarrow> fs \<times> exn option" where
  "extractall t base [] = (t, None)"
| "extractall t base (e # es) =
     (case extract_member t base e of
        (t1, Some x) \<Rightarrow> (t1, Some x)
      | (t1, None) \<Rightarrow> extractall t1 base es)"

subsection \<open>The world\<close>

datatype 'a reply = Fail | Ok 'a

record artifact =
  art_name :: string
  archive_download_url :: string
  expired :: bool

text \<open>
  \<open>run_replies\<close> are the successive answers of the run endpoint, each with the seconds by
  which the reading of \<open>time.time()\<close> changed while it was fetched (negative when the wall
  clock was set back); \<open>archive_replies\<close> gives, per download URL, the number of bytes streamed and what
  \<open>ZipFile\<close> reads from them. \<open>tmp_path\<close> and \<open>temp_extract_dir\<close> are the temporary archive
  file and the temporary extraction directory of \<open>download_zipfile\<close> while they exist;
  \<open>tempfile\<close> gives them fresh names outside \<open>disk\<close>.
\<close>

record world =
  disk :: fs
  tmp_path :: "(nat \<times> archive) option"
  temp_extract_dir :: "fs option"
  clock :: real
  run_replies :: "(real \<times> json_obj reply) list"
  artifacts_reply :: "artifact list reply"
  archive_replies :: "(string \<times> (nat \<times> archive) reply) list"
  env_GITHUB_TOKEN :: "string option"
  ghtoken :: "string option"
  events :: "event list"

definition emit :: "event \<Rightarrow> world \<Rightarrow> world" where
  "emit e w = w\<lparr>events := events w @ [e]\<rparr>"

text \<open>\<open>send_notification\<close> is best effort and returns nothing; the trace records the call.\<close>

definition send_notification :: "string \<Rightarrow> world \<Rightarrow> world" where
  "send_notification title w = emit (Notify title) w"

subsection \<open>parse_run_url\<close>

text \<open>
  A Python \<open>str\<close> is a sequence of code points, so the URL is a list of numbers here;
  \<open>ustr\<close> gives the code points of an ASCII literal of the source.
\<close>

type_synonym ustring = "nat list"

definition ustr :: "string \<Rightarrow> ustring" where
  "ustr s = map of_char s"

text \<open>
  The pattern of \<open>parse_run_url\<close> uses literals and capturing groups \<open>(C+)\<close> for the two
  classes \<open>[^/]\<close> and \<open>\d\<close>. On a \<open>str\<close>, \<open>\d\<close> matches every Unicode decimal digit
  (category Nd); that table belongs to the Python runtime and changes with its Unicode
  version, so it is the parameter \<open>decimal\<close> of the definitions below. \<open>re_match\<close> is
  \<open>re.match\<close> for such patterns: anchored at the start only, a group greedy, giving back
  one character at a time when the rest of the pattern fails.
\<close>

datatype cls = NotSlash | Digit

datatype rx = Lit ustring | Grp cls

fun in_cls :: "(nat \<Rightarrow> bool) \<Rightarrow> cls \<Rightarrow> nat \<Rightarrow> bool" where
  "in_cls decimal NotSlash c = (c \<noteq> of_char CHR ''/'')"
| "in_cls decimal Digit c = decimal c"

fun strip_lit :: "ustring \<Rightarrow> ustring \<Rightarrow> ustring option" where
  "strip_lit [] s = Some s"
| "strip_lit (c # cs) [] = None"
| "strip_lit (c # cs) (d # ds) = (if c = d then strip_lit cs ds else None)"

fun first_some :: "('a \<Rightarrow> 'b option) \<Rightarrow> 'a list \<Rightarrow> 'b option" where
  "first_some f [] = None"
| "first_some f (x # xs) = (case f x of Some y \<Rightarrow> Some y | None \<Rightarrow> first_some f xs)"

fun re_match :: "(nat \<Rightarrow> bool) \<Rightarrow> rx list \<Rightarrow> ustring \<Rightarrow> ustring list option" where
  "re_match decimal [] s = Some []"
| "re_match decimal (Lit l # rs) s =
     (case strip_lit l s of None \<Rightarrow> None | Some s' \<Rightarrow> re_match decimal rs s')"
| "re_match decimal (Grp c # rs) s =
     first_some
       (\<lambda>k. case re_match decimal rs (drop k s) of
              None \<Rightarrow> None
            | Some gs \<Rightarrow> Some (take k s # gs))
       (rev [1..<Suc (length (takeWhile (in_cls decimal c) s))])"

definition run_url_pattern :: "rx list" where
  "run_url_pattern =
     [Lit (ustr ''https://github.com/''), Grp NotSlash, Lit (ustr ''/''), Grp NotSlash,
      Lit (ustr ''/actions/runs/''), Grp Digit]"

definition parse_run_url :: "(nat \<Rightarrow> bool) \<Rightarrow> ustring \<Rightarrow> exn + (ustring \<times> ustring)" where
  "parse_run_url decimal url =
     (case re_match decimal run_url_pattern url of
        Some [owner, repo, run_id] \<Rightarrow> Inr (owner @ ustr ''/'' @ repo, run_id)
      | _ \<Rightarrow> Inl ValueError)"

text \<open>
  The shape the claim describes, written from its words and without the matcher's
  classes: after the host come an owner and a repo without a slash and a run id of decimal
  digits, followed by anything.
\<close>

definition run_url_shape ::
  "(nat \<Rightarrow> bool) \<Rightarrow> ustring \<Rightarrow> ustring \<Rightarrow> ustring \<Rightarrow> ustring \<Rightarrow> ustring \<Rightarrow> bool" where
  "run_url_shape decimal url owner repo run_id rest \<longleftrightarrow>
     url = ustr ''https://github.com/'' @ owner @ ustr ''/'' @ repo @
           ustr ''/actions/runs/'' @ run_id @ rest \<and>
     owner \<noteq> [] \<and> 47 \<notin> set owner \<and> repo \<noteq> [] \<and> 47 \<notin> set repo \<and>
     run_id \<noteq> [] \<and> list_all decimal run_id"

text \<open>
  The decimal digits of Unicode 14.0 (the version of CPython 3.11), for evaluating
  \<open>parse_run_url\<close> on examples: the first code point of each run of ten digits.
\<close>

definition decimal_starts :: "nat list" where
  "decimal_starts =
     [48, 1632, 1776, 1984, 2406, 2534, 2662, 2790, 2918, 3046, 3174, 3302, 3430, 3558, 3664,
      3792, 3872, 4160, 4240, 6112, 6160, 6470, 6608, 6784, 6800, 6992, 7088, 7232, 7248,
      42528, 43216, 43264, 43472, 43504, 43600, 44016, 65296, 66720, 68912, 69734, 69872,
      69942, 70096, 70384, 70736, 70864, 71248, 71360, 71472, 71904, 72016, 72784, 73040,
      73120, 92768, 92864, 93008, 120782, 120792, 120802, 120812, 120822, 123200, 123632,
      125264, 130032]"

definition unicode_decimal :: "nat \<Rightarrow> bool" where
  "unicode_decimal c = list_ex (\<lambda>s. s \<le> c \<and> c < s + 10) decimal_starts"

subsection \<open>Resolving name conflicts (flatten mode)\<close>

text \<open>\<open>str(counter)\<close> for a non-negative integer, and the number a decimal string denotes.\<close>

definition digit_char :: "nat \<Rightarrow> char" where
  "digit_char d = ''0123456789'' ! d"

fun str_of_nat :: "nat \<Rightarrow> string" where
  "str_of_nat n =
     (if n < 10 then [digit_char n] else str_of_nat (n div 10) @ [digit_char (n mod 10)])"

declare str_of_nat.simps [simp del]

definition nat_of_str :: "string \<Rightarrow> nat" where
  "nat_of_str s = foldl (\<lambda>a c. 10 * a + (of_char c - 48)) 0 s"

text \<open>
  The loop \<open>while dest.exists(): dest = output_dir / f"{base}_{counter}{ext}"; counter += 1\<close>
  on the loop state \<open>(dest, counter)\<close>. It ends because the numbered names are pairwise
  different and the directory is finite.
\<close>

function conflict_loop :: "fs \<Rightarrow> path \<Rightarrow> string \<Rightarrow> string \<Rightarrow> path \<Rightarrow> nat \<Rightarrow> path" where
  "conflict_loop t output_dir base ext dest counter =
     (if path_exists t dest
      then conflict_loop t output_dir base ext
             (output_dir @ [base @ ''_'' @ str_of_nat counter @ ext]) (counter + 1)
      else dest)"
  by pat_completeness auto
termination
proof (relation "measure (\<lambda>(t, output_dir, base, ext, dest, counter).
          card {k. counter \<le> k \<and>
                   path_exists t (output_dir @ [base @ ''_'' @ str_of_nat k @ ext])}
          + (if path_exists t dest then 1 else 0))")
  show "wf (measure (\<lambda>(t, output_dir, base, ext, dest, counter).
          card {k. counter \<le> k \<and>
                   path_exists t (output_dir @ [base @ ''_'' @ str_of_nat k @ ext])}
          + (if path_exists t dest then 1 else 0)))"
    by simp
next
  fix t :: fs and output_dir :: path and base ext :: string and dest :: path and counter :: nat
  assume ex: "path_exists t dest"
  let ?c = "\<lambda>k. output_dir @ [base @ ''_'' @ str_of_nat k @ ext]"
  let ?A = "\<lambda>c. {k. c \<le> k \<and> path_exists t (?c k)}"
  have dc: "of_char (digit_char d) = 48 + d" if "d < 10" for d
  proof -
    from that have "d \<in> {0, 1, 2, 3, 4, 5, 6, 7, 8, 9}" by auto
    then show ?thesis by (auto simp: digit_char_def)
  qed
  have rt: "nat_of_str (str_of_nat n) = n" for n
  proof (induction n rule: str_of_nat.induct)
    case (1 n)
    show ?case
    proof (cases "n < 10")
      case True
      then show ?thesis
        by (subst str_of_nat.simps) (simp add: nat_of_str_def dc)
    next
      case False
      have d: "of_char (digit_char (n mod 10)) = 48 + n mod 10"
        by (rule dc) simp
      have "nat_of_str (str_of_nat n) = 10 * nat_of_str (str_of_nat (n div 10)) + n mod 10"
        using False by (subst str_of_nat.simps) (simp add: nat_of_str_def d)
      then show ?thesis using "1.IH" False by simp
    qed
  qed
  have inj: "inj ?c"
  proof (rule injI)
    fix j k assume "?c j = ?c k"
    then have "str_of_nat j = str_of_nat k" by simp
    then have "nat_of_str (str_of_nat j) = nat_of_str (str_of_nat k)" by simp
    then show "j = k" by (simp only: rt)
  qed
  have "{k. path_exists t (?c k)} \<subseteq> ?c -` (fst ` set t)"
    by (auto simp: path_exists_def map_of_eq_None_iff)
  moreover have "finite (?c -` (fst ` set t))"
    using inj by (intro finite_vimageI) simp_all
  ultimately have fin0: "finite {k. path_exists t (?c k)}"
    by (rule finite_subset)
  have fin: "finite (?A c)" for c
    by (rule finite_subset[OF _ fin0]) auto
  have split: "?A counter = ?A (counter + 1) \<union> (if path_exists t (?c counter) then {counter} else {})"
    by (auto simp: Suc_le_eq le_less)
  have "card (?A counter) = card (?A (counter + 1)) + (if path_exists t (?c counter) then 1 else 0)"
    using fin[of "counter + 1"] by (subst split) simp
  then show "((t, output_dir, base, ext, ?c counter, counter + 1),
              (t, output_dir, base, ext, dest, counter))
        \<in> measure (\<lambda>(t, output_dir, base, ext, dest, counter).
          card {k. counter \<le> k \<and>
                   path_exists t (output_dir @ [base @ ''_'' @ str_of_nat k @ ext])}
          + (if path_exists t dest then 1 else 0))"
    using ex by simp
qed

declare conflict_loop.simps [simp del]

text \<open>Lines 253 to 261: the destination of one flattened file.\<close>

definition resolve_dest :: "fs \<Rightarrow> path \<Rightarrow> string \<Rightarrow> path" where
  "resolve_dest t output_dir name =
     (let dest = output_dir @ [name] in
      if path_exists t dest
      then conflict_loop t output_dir (stem_of name) (suffix_of name) dest 1
      else dest)"

text \<open>
  The loop over \<open>temp_extract_dir.rglob("*")\<close> (lines 246 to 265), on the temporary tree,
  the disk and the list \<open>extracted_files\<close>. \<open>shutil.move\<close> takes the file out of the
  temporary tree and writes it at the destination.
\<close>

fun flatten_loop :: "path \<Rightarrow> path list \<Rightarrow> fs \<times> fs \<times> path list \<Rightarrow> fs \<times> fs \<times> path list" where
  "flatten_loop output_dir [] st = st"
| "flatten_loop output_dir (item # items) (tmp, dsk, extracted_files) =
     (case map_of tmp item of
        Some (File d) \<Rightarrow>
          if name_of item = ''artifact.zip''
          then flatten_loop output_dir items (tmp, dsk, extracted_files)
          else
            (let dest = resolve_dest dsk output_dir (name_of item) in
             flatten_loop output_dir items
               (AList.delete item tmp, AList.update dest (File d) dsk, extracted_files @ [dest]))
      | _ \<Rightarrow> flatten_loop output_dir items (tmp, dsk, extracted_files))"

subsection \<open>download_zipfile\<close>

text \<open>The \<open>finally\<close> clause: \<open>tmp_path.unlink(missing_ok=True)\<close>.\<close>

definition unlink_tmp :: "world \<Rightarrow> world" where
  "unlink_tmp w = w\<lparr>tmp_path := None\<rparr>"

text \<open>
  A URL the world has no reply for answers with an error status. The headers carry only
  the token and are left out.
\<close>

definition download_zipfile :: "string \<Rightarrow> path \<Rightarrow> bool \<Rightarrow> world \<Rightarrow> path list outcome \<times> world" where
  "download_zipfile download_url output_dir flatten w =
     (case mkdir_parents (disk w) output_dir of
        (d1, Some x) \<Rightarrow> (Raise x, w\<lparr>disk := d1\<rparr>)
      | (d1, None) \<Rightarrow>
          (let w1 = w\<lparr>disk := d1, tmp_path := Some (0, NotAZip)\<rparr>;
               w2 = emit (HttpGet download_url) w1
           in case map_of (archive_replies w2) download_url of
                None \<Rightarrow> (Raise HTTPError, unlink_tmp w2)
              | Some Fail \<Rightarrow> (Raise HTTPError, unlink_tmp w2)
              | Some (Ok (n, arch)) \<Rightarrow>
                  (let w3 = w2\<lparr>tmp_path := Some (n, arch)\<rparr> in
                   if n = 0
                   then (Return [],
                         unlink_tmp (emit (LogWarning ''Downloaded file is empty!'') w3))
                   else
                     (case arch of
                        NotAZip \<Rightarrow>
                          (Raise BadZipFile,
                           unlink_tmp (emit (LogError ''Failed to extract zip file'') w3))
                      | Zip entries \<Rightarrow>
                          (case extractall [] [] entries of
                             (tmp, Some x) \<Rightarrow>
                               (Raise x,
                                unlink_tmp (emit (LogError ''Failed to extract zip file'')
                                  (w3\<lparr>temp_extract_dir := Some tmp\<rparr>)))
                           | (tmp, None) \<Rightarrow>
                               if flatten
                               then
                                 (case flatten_loop output_dir (rglob tmp []) (tmp, disk w3, []) of
                                    (tmp', dsk, extracted_files) \<Rightarrow>
                                      (Return extracted_files,
                                       unlink_tmp (w3\<lparr>disk := dsk, temp_extract_dir := None\<rparr>)))
                               else
                                 (case extractall (disk w3) output_dir entries of
                                    (dsk, Some x) \<Rightarrow>
                                      (Raise x,
                                       unlink_tmp (emit (LogError ''Failed to extract zip file'')
                                         (w3\<lparr>disk := dsk, temp_extract_dir := Some tmp\<rparr>)))
                                  | (dsk, None) \<Rightarrow>
                                      (Return [p \<leftarrow> rglob dsk output_dir.
                                                 is_file dsk p \<and> name_of p \<noteq> ''artifact.zip''],
                                       unlink_tmp
                                         (w3\<lparr>disk := dsk, temp_extract_dir := None\<rparr>))))))))"

subsection \<open>The remote API\<close>

definition run_api_url :: "string \<Rightarrow> string \<Rightarrow> string" where
  "run_api_url repo run_id = ''https://api.github.com/repos/'' @ repo @ ''/actions/runs/'' @ run_id"

definition artifacts_api_url :: "string \<Rightarrow> string \<Rightarrow> string" where
  "artifacts_api_url repo run_id = run_api_url repo run_id @ ''/artifacts''"

text \<open>
  \<open>get_workflow_run\<close>: one request to the run endpoint; it takes the next scripted reply
  and the time that reply took. \<open>raise_for_status\<close> raises \<open>HTTPError\<close>.
\<close>

definition get_workflow_run :: "string \<Rightarrow> string \<Rightarrow> string \<Rightarrow> world \<Rightarrow> json_obj outcome \<times> world" where
  "get_workflow_run repo run_id token w =
     (let w1 = emit (HttpGet (run_api_url repo run_id)) w in
      case run_replies w1 of
        [] \<Rightarrow> (OutOfScript, w1)
      | (seconds, r) # rest \<Rightarrow>
          (let w2 = w1\<lparr>run_replies := rest, clock := clock w1 + seconds\<rparr> in
           case r of
             Fail \<Rightarrow> (Raise HTTPError, w2)
           | Ok run \<Rightarrow> (Return run, w2)))"

definition list_artifacts :: "string \<Rightarrow> string \<Rightarrow> string \<Rightarrow> world \<Rightarrow> (string \<times> string) list outcome \<times> world" where
  "list_artifacts repo run_id token w =
     (let w1 = emit (HttpGet (artifacts_api_url repo run_id)) w in
      case artifacts_reply w1 of
        Fail \<Rightarrow> (Raise HTTPError, w1)
      | Ok arts \<Rightarrow>
          (let artifacts = [(art_name a, archive_download_url a). a \<leftarrow> arts, \<not> expired a] in
           if artifacts = []
           then (Return artifacts,
                 emit (LogWarning ''No non-expired artifacts found in this run'') w1)
           else (Return artifacts, w1)))"

definition get_github_token :: "world \<Rightarrow> exn + string" where
  "get_github_token w =
     (case env_GITHUB_TOKEN w of
        Some t \<Rightarrow>
          if t \<noteq> [] then Inr t
          else (case ghtoken w of Some g \<Rightarrow> Inr g | None \<Rightarrow> Inl RuntimeError)
      | None \<Rightarrow> (case ghtoken w of Some g \<Rightarrow> Inr g | None \<Rightarrow> Inl RuntimeError))"

subsection \<open>wait_for_workflow_completion\<close>

text \<open>
  \<open>time.sleep\<close> turns its argument into a 64-bit count of nanoseconds: it raises
  \<open>OverflowError\<close> for an integer of more than \<open>max_sleep\<close> seconds in size, and
  \<open>ValueError\<close> for any other negative one. Otherwise the clock moves on by the interval
  (any longer sleep counts as part of the next reply's time).
\<close>

definition max_sleep :: int where
  "max_sleep = (2 ^ 63 - 1) div 10 ^ 9"

function wait_loop ::
  "string \<Rightarrow> string \<Rightarrow> string \<Rightarrow> int \<Rightarrow> int \<Rightarrow> real \<Rightarrow> world \<Rightarrow> json_obj outcome \<times> world" where
  "wait_loop repo run_id token poll_interval timeout start_time w =
     (case get_workflow_run repo run_id token w of
        (OutOfScript, w1) \<Rightarrow> (OutOfScript, w1)
      | (Raise e, w1) \<Rightarrow>
          (Raise e,
           if e = HTTPError then emit (LogError ''Failed to fetch workflow status'') w1 else w1)
      | (Return run, w1) \<Rightarrow>
          if dict_get run ''status'' = JStr ''completed'' then (Return run, w1)
          else
            (let elapsed = clock w1 - start_time in
             if elapsed \<ge> real_of_int timeout
             then (Raise RuntimeError,
                   send_notification ''Workflow Timeout''
                     (emit (LogError ''Workflow did not complete within timeout'') w1))
             else if poll_interval > max_sleep \<or> poll_interval < - max_sleep
             then (Raise OverflowError, w1)
             else if poll_interval < 0 then (Raise ValueError, w1)
             else wait_loop repo run_id token poll_interval timeout start_time
                    (emit (Sleep poll_interval)
                       (w1\<lparr>clock := clock w1 + real_of_int poll_interval\<rparr>))))"
  by pat_completeness auto
termination
proof (relation "measure (\<lambda>(repo, run_id, token, poll_interval, timeout, start_time, w).
                   length (run_replies w))")
  show "wf (measure (\<lambda>(repo, run_id, token, poll_interval, timeout, start_time, w).
                   length (run_replies w)))"
    by simp
next
  fix repo run_id token :: string and poll_interval timeout :: int and start_time :: real
    and w w1 :: world and x :: "json_obj outcome" and run :: json_obj and elapsed :: real
  assume g: "(x, w1) = get_workflow_run repo run_id token w" and x: "x = Return run"
  have "length (run_replies w1) < length (run_replies w)"
    using g x
    by (auto simp: get_workflow_run_def emit_def Let_def split: list.splits reply.splits)
  then show "((repo, run_id, token, poll_interval, timeout, start_time,
               emit (Sleep poll_interval) (w1\<lparr>clock := clock w1 + real_of_int poll_interval\<rparr>)),
              (repo, run_id, token, poll_interval, timeout, start_time, w))
        \<in> measure (\<lambda>(repo, run_id, token, poll_interval, timeout, start_time, w).
                   length (run_replies w))"
    by (simp add: emit_def)
qed

declare wait_loop.simps [simp del]

definition wait_for_workflow_completion ::
  "string \<Rightarrow> string \<Rightarrow> string \<Rightarrow> int \<Rightarrow> int \<Rightarrow> world \<Rightarrow> json_obj outcome \<times> world" where
  "wait_for_workflow_completion repo run_id token poll_interval timeout w =
     wait_loop repo run_id token poll_interval timeout (clock w) w"

subsection \<open>download_artifacts\<close>

text \<open>
  Lines 366 to 388: the first fetch and, if asked for, the wait. The log line of the first
  fetch reads four keys with \<open>run[...]\<close>. \<open>sys.exit(1)\<close> raises \<open>SystemExit 1\<close>.
\<close>

definition fetch_and_wait ::
  "string \<Rightarrow> string \<Rightarrow> string \<Rightarrow> bool \<Rightarrow> int \<Rightarrow> int \<Rightarrow> world \<Rightarrow> json_obj outcome \<times> world" where
  "fetch_and_wait repo run_id token wait poll_interval timeout w =
     (case get_workflow_run repo run_id token w of
        (OutOfScript, w1) \<Rightarrow> (OutOfScript, w1)
      | (Raise e, w1) \<Rightarrow>
          if e = HTTPError
          then (Raise (SystemExit 1), emit (LogError ''Failed to fetch workflow run'') w1)
          else (Raise e, w1)
      | (Return run, w1) \<Rightarrow>
          if \<not> (has_key run ''run_number'' \<and> has_key run ''name'' \<and>
                has_key run ''status'' \<and> has_key run ''conclusion'')
          then (Raise KeyError, w1)
          else if wait \<and> dict_get run ''status'' \<noteq> JStr ''completed''
          then
            (case wait_for_workflow_completion repo run_id token poll_interval timeout w1 of
               (Raise e, w2) \<Rightarrow>
                 if e = RuntimeError
                 then (Raise (SystemExit 1),
                       emit (LogError ''Workflow did not complete within timeout'') w2)
                 else (Raise e, w2)
             | (r, w2) \<Rightarrow> (r, w2))
          else (Return run, w1))"

text \<open>Lines 390 to 414: the check of the conclusion.\<close>

definition check_conclusion :: "json_obj \<Rightarrow> world \<Rightarrow> unit outcome \<times> world" where
  "check_conclusion run w =
     (let conclusion = dict_get run ''conclusion'' in
      if conclusion = JStr ''success''
      then (Return (), send_notification ''Workflow Succeeded'' w)
      else if conclusion \<noteq> JNull
      then (Raise (SystemExit 1),
            send_notification ''Workflow Failed''
              (emit (LogError ''Workflow concluded with status'') w))
      else (Raise (SystemExit 1), emit (LogError ''Workflow status is unknown'') w))"

text \<open>
  Lines 435 to 455: the loop over the listed artifacts, with \<open>total_files\<close>. An artifact's
  name is one path component. \<open>iterdir\<close> on a regular file raises outside the \<open>try\<close>.
\<close>

fun download_loop ::
  "bool \<Rightarrow> path \<Rightarrow> (string \<times> string) list \<Rightarrow> nat \<Rightarrow> world \<Rightarrow> nat outcome \<times> world" where
  "download_loop flatten output_path [] total_files w = (Return total_files, w)"
| "download_loop flatten output_path ((name, download_url) # rest) total_files w =
     (let artifact_dir = (if flatten then output_path else output_path @ [name]) in
      if \<not> flatten \<and> path_exists (disk w) artifact_dir \<and> \<not> is_dir (disk w) artifact_dir
      then (Raise OSError, w)
      else if \<not> flatten \<and> path_exists (disk w) artifact_dir \<and> iterdir (disk w) artifact_dir \<noteq> []
      then download_loop flatten output_path rest total_files w
      else
        (case download_zipfile download_url artifact_dir flatten w of
           (Return extracted_files, w1) \<Rightarrow>
             download_loop flatten output_path rest (total_files + length extracted_files) w1
         | (Raise e, w1) \<Rightarrow>
             (Raise (SystemExit 1), emit (LogError ''Failed to download artifact'') w1)
         | (OutOfScript, w1) \<Rightarrow> (OutOfScript, w1)))"

text \<open>Lines 416 to 457: listing and downloading, after the conclusion was \<open>success\<close>.\<close>

definition list_and_download ::
  "string \<Rightarrow> string \<Rightarrow> string \<Rightarrow> path \<Rightarrow> bool \<Rightarrow> world \<Rightarrow> nat outcome \<times> world" where
  "list_and_download repo run_id token output_path flatten w =
     (case list_artifacts repo run_id token w of
        (OutOfScript, w1) \<Rightarrow> (OutOfScript, w1)
      | (Raise e, w1) \<Rightarrow>
          if e = HTTPError
          then (Raise (SystemExit 1), emit (LogError ''Failed to list artifacts'') w1)
          else (Raise e, w1)
      | (Return artifacts, w1) \<Rightarrow>
          if artifacts = []
          then (Raise (SystemExit 1), emit (LogError ''No artifacts to download'') w1)
          else download_loop flatten output_path artifacts 0 w1)"

text \<open>Lines 358 and 359: \<open>if token is None: token = get_github_token()\<close>.\<close>

definition resolve_token :: "string option \<Rightarrow> world \<Rightarrow> exn + string" where
  "resolve_token token w = (case token of None \<Rightarrow> get_github_token w | Some t \<Rightarrow> Inr t)"

definition download_artifacts ::
  "string \<Rightarrow> string \<Rightarrow> path option \<Rightarrow> string option \<Rightarrow> bool \<Rightarrow> bool \<Rightarrow> int \<Rightarrow> int \<Rightarrow> world
     \<Rightarrow> nat outcome \<times> world" where
  "download_artifacts repo run_id output_dir token flatten wait poll_interval timeout w =
     (case resolve_token token w of
        Inl e \<Rightarrow> (Raise e, w)
      | Inr tok \<Rightarrow>
          (let output_path =
                 (case output_dir of None \<Rightarrow> [''artifacts-'' @ run_id] | Some p \<Rightarrow> p)
           in case fetch_and_wait repo run_id tok wait poll_interval timeout w of
                (OutOfScript, w1) \<Rightarrow> (OutOfScript, w1)
              | (Raise e, w1) \<Rightarrow> (Raise e, w1)
              | (Return run, w1) \<Rightarrow>
                  (case check_conclusion run w1 of
                     (Return u, w2) \<Rightarrow> list_and_download repo run_id tok output_path flatten w2
                   | (Raise e, w2) \<Rightarrow> (Raise e, w2)
                   | (OutOfScript, w2) \<Rightarrow> (OutOfScript, w2))))"

subsection \<open>Specification predicates and example inputs\<close>


text \<open>The events a call adds to the trace, and two ways to read them.\<close>

definition new_events :: "world \<Rightarrow> world \<Rightarrow> event list" where
  "new_events w w' = drop (length (events w)) (events w')"


fun is_run_fetch :: "string \<Rightarrow> string \<Rightarrow> event \<Rightarrow> bool" where
  "is_run_fetch repo run_id (HttpGet u) = (u = run_api_url repo run_id)"
| "is_run_fetch repo run_id e = True"

text \<open>The test of line 444, where it does not raise.\<close>

definition already_downloaded :: "fs \<Rightarrow> path \<Rightarrow> bool" where
  "already_downloaded t d = (path_exists t d \<and> is_dir t d \<and> iterdir t d \<noteq> [])"

text \<open>Inputs on which the theorems below are instantiated.\<close>

definition empty_world :: world where
  "empty_world =
     \<lparr>disk = [], tmp_path = None, temp_extract_dir = None, clock = 0, run_replies = [],
      artifacts_reply = Ok [], archive_replies = [], env_GITHUB_TOKEN = None, ghtoken = None,
      events = []\<rparr>"

definition example_zip :: "zip_entry list" where
  "example_zip =
     [\<lparr>ze_dirs = [], ze_name = ''run.log'', ze_body = Data ''new''\<rparr>,
      \<lparr>ze_dirs = [''sub''], ze_name = ''artifact.zip'', ze_body = Data ''wrapped''\<rparr>,
      \<lparr>ze_dirs = [''sub''], ze_name = ''run.log'', ze_body = Data ''third''\<rparr>]"

definition example_world :: world where
  "example_world =
     empty_world\<lparr>disk := [([''out''], Dir), ([''out'', ''run.log''], File ''old'')],
                 archive_replies := [(''u'', Ok (64, Zip example_zip))]\<rparr>"

text \<open>An archive whose second member cannot be read.\<close>

definition broken_world :: world where
  "broken_world =
     empty_world\<lparr>archive_replies :=
       [(''u'', Ok (64, Zip [\<lparr>ze_dirs = [], ze_name = ''run.log'', ze_body = Data ''new''\<rparr>,
                            \<lparr>ze_dirs = [], ze_name = ''app.bin'', ze_body = Corrupt\<rparr>]))]\<rparr>"

text \<open>
  The scenario of the specification: run 123 of \<open>acme/app\<close>, completed with success, with
  the artifacts \<open>logs\<close> (\<open>run.log\<close> and \<open>artifact.zip\<close>) and \<open>build\<close> (\<open>app.bin\<close>).
\<close>

definition run_success :: json_obj where
  "run_success =
     [(''run_number'', JInt 7), (''name'', JStr ''CI''), (''status'', JStr ''completed''),
      (''conclusion'', JStr ''success'')]"

definition scenario_world :: world where
  "scenario_world =
     empty_world\<lparr>
       run_replies := [(1, Ok run_success)],
       artifacts_reply :=
         Ok [\<lparr>art_name = ''logs'', archive_download_url = ''dl/logs'', expired = False\<rparr>,
             \<lparr>art_name = ''build'', archive_download_url = ''dl/build'', expired = False\<rparr>],
       archive_replies :=
         [(''dl/logs'',
           Ok (300, Zip [\<lparr>ze_dirs = [], ze_name = ''run.log'', ze_body = Data ''log''\<rparr>,
                         \<lparr>ze_dirs = [], ze_name = ''artifact.zip'', ze_body = Data ''zip''\<rparr>])),
          (''dl/build'',
           Ok (200, Zip [\<lparr>ze_dirs = [], ze_name = ''app.bin'', ze_body = Data ''bin''\<rparr>]))]\<rparr>"

text \<open>A run that is still going, one that failed, and a world that answers twice.\<close>

definition run_in_progress :: json_obj where
  "run_in_progress =
     [(''run_number'', JInt 7), (''name'', JStr ''CI''), (''status'', JStr ''in_progress''),
      (''conclusion'', JNull)]"

definition run_failure :: json_obj where
  "run_failure =
     [(''run_number'', JInt 7), (''name'', JStr ''CI''), (''status'', JStr ''completed''),
      (''conclusion'', JStr ''failure'')]"

definition polling_world :: world where
  "polling_world =
     scenario_world\<lparr>run_replies := [(5, Ok run_in_progress), (3, Ok run_in_progress)]\<rparr>"


section \<open>Properties\<close>

subsection \<open>parse_run_url\<close>

lemma strip_lit_Some: "strip_lit l s = Some t \<longleftrightarrow> s = l @ t"
  by (induction l s rule: strip_lit.induct) auto

lemma strip_lit_append: "strip_lit l (l @ t) = Some t"
  by (simp add: strip_lit_Some)

lemma first_some_all_None: "(\<And>k. k \<in> set ks \<Longrightarrow> f k = None) \<Longrightarrow> first_some f ks = None"
  by (induction ks) auto

lemma first_some_downto:
  assumes "\<And>k. 1 \<le> k \<Longrightarrow> k < n \<Longrightarrow> f k = None"
  shows "first_some f (rev [1..<Suc n]) = (if n = 0 then None else f n)"
proof (cases n)
  case 0
  then show ?thesis by simp
next
  case (Suc m)
  have "first_some f (rev [1..<Suc m]) = None"
    using assms Suc by (intro first_some_all_None) auto
  then show ?thesis using Suc by (cases "f (Suc m)") auto
qed

lemma first_some_hit:
  "n \<noteq> 0 \<Longrightarrow> f n = Some y \<Longrightarrow> first_some f (rev [1..<Suc n]) = Some y"
  by (cases n) auto

lemma drop_in_takeWhile:
  assumes "k < length (takeWhile P s)"
  shows "\<exists>y t. drop k s = y # t \<and> P y"
proof -
  have k: "k < length s" using assms length_takeWhile_le[of P s] by (meson le_trans not_le)
  have "P (s ! k)" using assms by (metis nth_mem set_takeWhileD takeWhile_nth)
  moreover have "drop k s = s ! k # drop (Suc k) s" using k by (simp add: Cons_nth_drop_Suc)
  ultimately show ?thesis by blast
qed

lemma re_match_Grp_Lit:
  assumes "\<not> in_cls decimal c x"
  shows "re_match decimal (Grp c # Lit (x # l) # rs) s =
     (if takeWhile (in_cls decimal c) s = [] then None
      else case re_match decimal (Lit (x # l) # rs) (dropWhile (in_cls decimal c) s) of
             None \<Rightarrow> None
           | Some gs \<Rightarrow> Some (takeWhile (in_cls decimal c) s # gs))"
proof -
  let ?n = "length (takeWhile (in_cls decimal c) s)"
  let ?f = "\<lambda>k. case re_match decimal (Lit (x # l) # rs) (drop k s) of
                  None \<Rightarrow> None | Some gs \<Rightarrow> Some (take k s # gs)"
  have none: "?f k = None" if kn: "k < ?n" for k
  proof -
    obtain y t where "drop k s = y # t" "in_cls decimal c y"
      using drop_in_takeWhile[OF kn] by blast
    then show ?thesis using assms by auto
  qed
  have "re_match decimal (Grp c # Lit (x # l) # rs) s = first_some ?f (rev [1..<Suc ?n])"
    by simp
  also have "\<dots> = (if ?n = 0 then None else ?f ?n)"
    by (rule first_some_downto) (rule none)
  finally show ?thesis
    by (simp add: takeWhile_eq_take[symmetric] dropWhile_eq_drop[symmetric]
          del: re_match.simps cong: option.case_cong)
qed

lemma re_match_Grp_last:
  "re_match decimal [Grp c] s =
     (if takeWhile (in_cls decimal c) s = [] then None else Some [takeWhile (in_cls decimal c) s])"
proof (cases "takeWhile (in_cls decimal c) s = []")
  case True
  then show ?thesis by simp
next
  case False
  then have "first_some (\<lambda>k. case re_match decimal [] (drop k s) of
                  None \<Rightarrow> None | Some gs \<Rightarrow> Some (take k s # gs))
        (rev [1..<Suc (length (takeWhile (in_cls decimal c) s))]) = Some [take (length (takeWhile (in_cls decimal c) s)) s]"
    by (intro first_some_hit) auto
  then show ?thesis using False by (simp add: takeWhile_eq_take[symmetric])
qed

lemma parse_run_url_unfold:
  "parse_run_url decimal url =
     (case strip_lit (ustr ''https://github.com/'') url of
        None \<Rightarrow> Inl ValueError
      | Some r1 \<Rightarrow>
          if takeWhile (in_cls decimal NotSlash) r1 = [] then Inl ValueError
          else (case strip_lit (ustr ''/'') (dropWhile (in_cls decimal NotSlash) r1) of
             None \<Rightarrow> Inl ValueError
           | Some r2 \<Rightarrow>
               if takeWhile (in_cls decimal NotSlash) r2 = [] then Inl ValueError
               else (case strip_lit (ustr ''/actions/runs/'') (dropWhile (in_cls decimal NotSlash) r2) of
                  None \<Rightarrow> Inl ValueError
                | Some r3 \<Rightarrow>
                    if takeWhile (in_cls decimal Digit) r3 = [] then Inl ValueError
                    else Inr (takeWhile (in_cls decimal NotSlash) r1 @ (ustr ''/'') @ takeWhile (in_cls decimal NotSlash) r2,
                              takeWhile (in_cls decimal Digit) r3))))"
proof -
  have l1: "ustr ''/actions/runs/'' = 47 # ustr ''actions/runs/''" and l2: "ustr ''/'' = 47 # []"
    by (simp_all add: ustr_def)
  have a: "re_match decimal (Grp NotSlash # Lit (ustr ''/actions/runs/'') # rs) s =
     (if takeWhile (in_cls decimal NotSlash) s = [] then None
      else case re_match decimal (Lit (ustr ''/actions/runs/'') # rs) (dropWhile (in_cls decimal NotSlash) s) of
             None \<Rightarrow> None
           | Some gs \<Rightarrow> Some (takeWhile (in_cls decimal NotSlash) s # gs))" for rs s
    unfolding l1 by (rule re_match_Grp_Lit) simp
  have b: "re_match decimal (Grp NotSlash # Lit (ustr ''/'') # rs) s =
     (if takeWhile (in_cls decimal NotSlash) s = [] then None
      else case re_match decimal (Lit (ustr ''/'') # rs) (dropWhile (in_cls decimal NotSlash) s) of
             None \<Rightarrow> None
           | Some gs \<Rightarrow> Some (takeWhile (in_cls decimal NotSlash) s # gs))" for rs s
    unfolding l2 by (rule re_match_Grp_Lit) simp
  have c: "re_match decimal (Lit l # rs) s = (case strip_lit l s of None \<Rightarrow> None | Some s' \<Rightarrow> re_match decimal rs s')" for l rs s
    by simp
  show ?thesis
    unfolding parse_run_url_def run_url_pattern_def
    by (simp only: a b c re_match_Grp_last split: option.splits) (auto split: option.splits)
qed


lemma takeWhile_dropWhile_Nil: "takeWhile P (dropWhile P xs) = []"
  by (induction xs) auto

lemma split_cls:
  assumes "list_all P g" "takeWhile P t = []"
  shows "takeWhile P (g @ t) = g" "dropWhile P (g @ t) = t"
proof -
  have g: "\<And>x. x \<in> set g \<Longrightarrow> P x" using assms(1) by (simp add: list_all_iff)
  show "takeWhile P (g @ t) = g" using g assms(2) by (simp add: takeWhile_append2)
  have "dropWhile P t = t" using assms(2) by (cases t) (auto split: if_splits)
  then show "dropWhile P (g @ t) = t" using g by (simp add: dropWhile_append2)
qed

lemma list_all_NotSlash: "list_all (in_cls decimal NotSlash) xs \<longleftrightarrow> 47 \<notin> set xs"
  by (induction xs) auto

lemma in_cls_Digit: "in_cls decimal Digit = decimal"
  by (rule ext) simp

lemma ustr_slash: "ustr ''/'' @ xs = 47 # xs"
  by (simp add: ustr_def)

lemma takeWhile_NotSlash_lit:
  "takeWhile (in_cls decimal NotSlash) (ustr ''/'' @ xs) = []"
  "takeWhile (in_cls decimal NotSlash) (ustr ''/actions/runs/'' @ xs) = []"
  by (simp_all add: ustr_def)

lemma parse_run_url_shape:
  assumes "run_url_shape decimal url owner repo run_id rest" "takeWhile (in_cls decimal Digit) rest = []"
  shows "parse_run_url decimal url = Inr (owner @ (ustr ''/'') @ repo, run_id)"
proof -
  let ?r3 = "run_id @ rest"
  let ?r2 = "repo @ (ustr ''/actions/runs/'') @ ?r3"
  let ?r1 = "owner @ (ustr ''/'') @ ?r2"
  from assms(1) have url: "url = (ustr ''https://github.com/'') @ ?r1"
    and o: "owner \<noteq> []" "list_all (in_cls decimal NotSlash) owner"
    and r: "repo \<noteq> []" "list_all (in_cls decimal NotSlash) repo"
    and i: "run_id \<noteq> []" "list_all (in_cls decimal Digit) run_id"
    by (simp_all add: run_url_shape_def list_all_NotSlash in_cls_Digit)
  have s1: "strip_lit (ustr ''https://github.com/'') url = Some ?r1"
    unfolding url by (rule strip_lit_append)
  have t1: "takeWhile (in_cls decimal NotSlash) ?r1 = owner" "dropWhile (in_cls decimal NotSlash) ?r1 = (ustr ''/'') @ ?r2"
    using split_cls[OF o(2) takeWhile_NotSlash_lit(1)] by simp_all
  have s2: "strip_lit (ustr ''/'') ((ustr ''/'') @ ?r2) = Some ?r2"
    by (rule strip_lit_append)
  have t2: "takeWhile (in_cls decimal NotSlash) ?r2 = repo"
       "dropWhile (in_cls decimal NotSlash) ?r2 = (ustr ''/actions/runs/'') @ ?r3"
    using split_cls[OF r(2) takeWhile_NotSlash_lit(2)] by simp_all
  have s3: "strip_lit (ustr ''/actions/runs/'') ((ustr ''/actions/runs/'') @ ?r3) = Some ?r3"
    by (rule strip_lit_append)
  have t3: "takeWhile (in_cls decimal Digit) ?r3 = run_id"
    using split_cls(1)[OF i(2) assms(2)] .
  show ?thesis
    unfolding parse_run_url_unfold s1 option.case t1 s2 t2 s3 t3 using o r i by simp
qed

lemma parse_run_url_Inr:
  assumes "parse_run_url decimal url = Inr (r, i)"
  shows "\<exists>owner repo rest. run_url_shape decimal url owner repo i rest \<and>
           takeWhile (in_cls decimal Digit) rest = [] \<and> r = owner @ (ustr ''/'') @ repo"
proof -
  from assms obtain r1 r2 r3 where
    s1: "strip_lit (ustr ''https://github.com/'') url = Some r1" and
    o: "takeWhile (in_cls decimal NotSlash) r1 \<noteq> []" and
    s2: "strip_lit (ustr ''/'') (dropWhile (in_cls decimal NotSlash) r1) = Some r2" and
    p: "takeWhile (in_cls decimal NotSlash) r2 \<noteq> []" and
    s3: "strip_lit (ustr ''/actions/runs/'') (dropWhile (in_cls decimal NotSlash) r2) = Some r3" and
    d: "takeWhile (in_cls decimal Digit) r3 \<noteq> []" and
    res: "r = takeWhile (in_cls decimal NotSlash) r1 @ (ustr ''/'') @ takeWhile (in_cls decimal NotSlash) r2"
         "i = takeWhile (in_cls decimal Digit) r3"
    unfolding parse_run_url_unfold by (auto split: option.splits if_splits)
  let ?owner = "takeWhile (in_cls decimal NotSlash) r1"
  let ?repo = "takeWhile (in_cls decimal NotSlash) r2"
  let ?rest = "dropWhile (in_cls decimal Digit) r3"
  have e1: "url = (ustr ''https://github.com/'') @ r1" using s1 by (simp only: strip_lit_Some)
  have e2: "dropWhile (in_cls decimal NotSlash) r1 = (ustr ''/'') @ r2" using s2 by (simp only: strip_lit_Some)
  have e3: "dropWhile (in_cls decimal NotSlash) r2 = (ustr ''/actions/runs/'') @ r3"
    using s3 by (simp only: strip_lit_Some)
  have "r1 = ?owner @ (ustr ''/'') @ r2" using takeWhile_dropWhile_id[of "in_cls decimal NotSlash" r1] e2 by simp
  moreover have "r2 = ?repo @ (ustr ''/actions/runs/'') @ r3"
    using takeWhile_dropWhile_id[of "in_cls decimal NotSlash" r2] e3 by simp
  moreover have "r3 = i @ ?rest" using res(2) by simp
  ultimately have "url = (ustr ''https://github.com/'') @ ?owner @ (ustr ''/'') @ ?repo @ (ustr ''/actions/runs/'') @ i @ ?rest"
    using e1 by simp
  moreover have "list_all (in_cls decimal NotSlash) ?owner" "list_all (in_cls decimal NotSlash) ?repo"
    "list_all (in_cls decimal Digit) i"
    unfolding res(2) list_all_iff by (auto dest: set_takeWhileD)
  ultimately have "run_url_shape decimal url ?owner ?repo i ?rest"
    using o p d res(2) unfolding run_url_shape_def
    by (simp add: list_all_NotSlash in_cls_Digit)
  then show ?thesis using res(1) takeWhile_dropWhile_Nil[of "in_cls decimal Digit" r3] by blast
qed

lemma run_url_shape_maximal:
  assumes "run_url_shape decimal url owner repo i rest"
  shows "run_url_shape decimal url owner repo (i @ takeWhile (in_cls decimal Digit) rest) (dropWhile (in_cls decimal Digit) rest)"
proof -
  have "i @ rest = (i @ takeWhile (in_cls decimal Digit) rest) @ dropWhile (in_cls decimal Digit) rest"
    by simp
  moreover have "list_all (in_cls decimal Digit) (takeWhile (in_cls decimal Digit) rest)"
    unfolding list_all_iff by (auto dest: set_takeWhileD)
  ultimately show ?thesis
    using assms unfolding run_url_shape_def by (simp add: in_cls_Digit)
qed

lemma parse_run_url_only_ValueError: "parse_run_url decimal url = Inl e \<Longrightarrow> e = ValueError"
  unfolding parse_run_url_unfold by (auto split: option.splits if_splits)

text \<open>
  Claim C9. \<open>parse_run_url\<close> accepts exactly the URLs that start with
  \<open>https://github.com/<owner>/<repo>/actions/runs/<digits>\<close>, the digits being the decimal
  digits that \<open>\d\<close> matches: it returns the repository \<open>owner/repo\<close> and the longest run of
  digits as the run id, ignores whatever follows the run id, and raises \<open>ValueError\<close> (and
  nothing else) for every other URL, in particular for every other host or scheme.
\<close>

theorem parse_run_url_prefix_match:
  "(parse_run_url decimal url = Inr (r, i) \<longleftrightarrow>
      (\<exists>owner repo rest. run_url_shape decimal url owner repo i rest \<and>
         takeWhile decimal rest = [] \<and> r = owner @ ustr ''/'' @ repo)) \<and>
   (parse_run_url decimal url = Inl ValueError \<longleftrightarrow>
      \<not> (\<exists>owner repo run_id rest. run_url_shape decimal url owner repo run_id rest)) \<and>
   (\<forall>e. parse_run_url decimal url = Inl e \<longrightarrow> e = ValueError)"
proof (intro conjI)
  show "parse_run_url decimal url = Inr (r, i) \<longleftrightarrow>
      (\<exists>owner repo rest. run_url_shape decimal url owner repo i rest \<and>
         takeWhile decimal rest = [] \<and> r = owner @ ustr ''/'' @ repo)"
    using parse_run_url_Inr[of decimal url r i] parse_run_url_shape[of decimal url _ _ i]
    unfolding in_cls_Digit by blast
next
  show "parse_run_url decimal url = Inl ValueError \<longleftrightarrow>
      \<not> (\<exists>owner repo run_id rest. run_url_shape decimal url owner repo run_id rest)"
  proof
    assume l: "parse_run_url decimal url = Inl ValueError"
    show "\<not> (\<exists>owner repo run_id rest. run_url_shape decimal url owner repo run_id rest)"
    proof
      assume "\<exists>owner repo run_id rest. run_url_shape decimal url owner repo run_id rest"
      then obtain owner repo run_id rest where
        "run_url_shape decimal url owner repo run_id rest" by blast
      from parse_run_url_shape[OF run_url_shape_maximal[OF this] takeWhile_dropWhile_Nil] l
      show False by simp
    qed
  next
    assume n: "\<not> (\<exists>owner repo run_id rest. run_url_shape decimal url owner repo run_id rest)"
    show "parse_run_url decimal url = Inl ValueError"
    proof (cases "parse_run_url decimal url")
      case (Inl e)
      then show ?thesis using parse_run_url_only_ValueError by blast
    next
      case (Inr b)
      then obtain r i where "parse_run_url decimal url = Inr (r, i)" by (cases b) auto
      from parse_run_url_Inr[OF this] n show ?thesis by blast
    qed
  qed
next
  show "\<forall>e. parse_run_url decimal url = Inl e \<longrightarrow> e = ValueError"
    using parse_run_url_only_ValueError by blast
qed

theorem parse_run_url_prefix_match_witness:
  "parse_run_url unicode_decimal
     (ustr ''https://github.com/acme/app/actions/runs/'' @ [49, 50, 1635] @ ustr ''/job/456'')
     = Inr (ustr ''acme/app'', [49, 50, 1635]) \<and>
   \<not> (\<exists>owner repo run_id rest.
          run_url_shape unicode_decimal (ustr ''http://github.com/acme/app/actions/runs/123'')
            owner repo run_id rest)"
proof -
  let ?url = "ustr ''https://github.com/acme/app/actions/runs/'' @ [49, 50, 1635] @ ustr ''/job/456''"
  have "run_url_shape unicode_decimal ?url (ustr ''acme'') (ustr ''app'') [49, 50, 1635]
          (ustr ''/job/456'')"
    by (simp add: run_url_shape_def ustr_def unicode_decimal_def decimal_starts_def)
  moreover have "takeWhile unicode_decimal (ustr ''/job/456'') = []"
    by (simp add: ustr_def unicode_decimal_def decimal_starts_def)
  moreover have "ustr ''acme/app'' = ustr ''acme'' @ ustr ''/'' @ ustr ''app''"
    by (simp add: ustr_def)
  ultimately have "\<exists>owner repo rest.
      run_url_shape unicode_decimal ?url owner repo [49, 50, 1635] rest \<and>
      takeWhile unicode_decimal rest = [] \<and> ustr ''acme/app'' = owner @ ustr ''/'' @ repo"
    by blast
  then have a: "parse_run_url unicode_decimal ?url = Inr (ustr ''acme/app'', [49, 50, 1635])"
    using parse_run_url_prefix_match[of unicode_decimal ?url "ustr ''acme/app''" "[49, 50, 1635]"]
    by blast
  have "parse_run_url unicode_decimal (ustr ''http://github.com/acme/app/actions/runs/123'')
          = Inl ValueError"
    by (simp add: parse_run_url_def run_url_pattern_def ustr_def)
  then have b: "\<not> (\<exists>owner repo run_id rest.
          run_url_shape unicode_decimal (ustr ''http://github.com/acme/app/actions/runs/123'')
            owner repo run_id rest)"
    using parse_run_url_prefix_match[of unicode_decimal
            "ustr ''http://github.com/acme/app/actions/runs/123''"]
    by blast
  show ?thesis using a b by (rule conjI)
qed

subsection \<open>The file system\<close>

lemma mkdirs_appends:
  "mkdirs t pre cs = (t', r) \<Longrightarrow>
     \<exists>ad. t' = t @ ad \<and>
       (\<forall>q\<in>set ad. snd q = Dir \<and> map_of t (fst q) = None \<and>
          length (fst q) \<le> length (pre @ cs) \<and> fst q = take (length (fst q)) (pre @ cs))"
proof (induction t pre cs arbitrary: t' r rule: mkdirs.induct)
  case (1 t pre)
  then show ?case by simp
next
  case (2 t pre c cs)
  show ?case
  proof (cases "map_of t (pre @ [c])")
    case None
    with 2 have "mkdirs (t @ [(pre @ [c], Dir)]) (pre @ [c]) cs = (t', r)" by simp
    from "2.IH"(1)[OF None this] obtain ad where
      ad: "t' = (t @ [(pre @ [c], Dir)]) @ ad"
        "\<forall>q\<in>set ad. snd q = Dir \<and> map_of (t @ [(pre @ [c], Dir)]) (fst q) = None \<and>
          length (fst q) \<le> length ((pre @ [c]) @ cs) \<and>
          fst q = take (length (fst q)) ((pre @ [c]) @ cs)"
      by blast
    have "\<forall>q\<in>set ((pre @ [c], Dir) # ad). snd q = Dir \<and> map_of t (fst q) = None \<and>
          length (fst q) \<le> length (pre @ c # cs) \<and> fst q = take (length (fst q)) (pre @ c # cs)"
      using ad(2) None by (auto simp: map_add_def split: option.splits)
    then show ?thesis using ad(1) by (intro exI[of _ "(pre @ [c], Dir) # ad"]) simp
  next
    case (Some n)
    show ?thesis
    proof (cases n)
      case (File d)
      with 2 Some show ?thesis by simp
    next
      case Dir
      with 2 Some have "mkdirs t (pre @ [c]) cs = (t', r)" by simp
      from "2.IH"(2)[OF Some Dir this] show ?thesis by simp
    qed
  qed
qed

lemma mkdir_parents_rglob:
  assumes "mkdir_parents t d = (t', r)"
  shows "rglob t' d = rglob t d"
proof -
  from mkdirs_appends[OF assms[unfolded mkdir_parents_def]] obtain ad where
    ad: "t' = t @ ad" "\<forall>q\<in>set ad. length (fst q) \<le> length d" by auto
  have "[p \<leftarrow> map fst ad. length d < length p \<and> take (length d) p = d] = []"
    using ad(2) by (auto simp: filter_empty_conv)
  then show ?thesis unfolding rglob_def ad(1) by simp
qed

lemma mkdir_parents_map_of:
  assumes "mkdir_parents t d = (t', r)" "map_of t p \<noteq> None"
  shows "map_of t' p = map_of t p"
proof -
  from mkdirs_appends[OF assms(1)[unfolded mkdir_parents_def]] obtain ad where
    ad: "t' = t @ ad" by auto
  show ?thesis using assms(2) unfolding ad by (auto simp: map_add_def split: option.splits)
qed







subsection \<open>Resolving conflicts and flattening\<close>


lemma conflict_loop_spec:
  "\<not> path_exists t (conflict_loop t out base ext dest c) \<and>
   (if path_exists t dest
    then \<exists>k\<ge>c. conflict_loop t out base ext dest c = out @ [base @ ''_'' @ str_of_nat k @ ext] \<and>
           (\<forall>j. c \<le> j \<and> j < k \<longrightarrow> path_exists t (out @ [base @ ''_'' @ str_of_nat j @ ext]))
    else conflict_loop t out base ext dest c = dest)"
proof (induction t out base ext dest c rule: conflict_loop.induct)
  case (1 t out base ext dest c)
  let ?c = "\<lambda>k. out @ [base @ ''_'' @ str_of_nat k @ ext]"
  show ?case
  proof (cases "path_exists t dest")
    case False
    then show ?thesis by (subst (1 2 3) conflict_loop.simps) simp
  next
    case True
    let ?r = "conflict_loop t out base ext (?c c) (c + 1)"
    have r: "conflict_loop t out base ext dest c = ?r"
      using True by (subst conflict_loop.simps) simp
    from "1.IH"[OF True] have
      free: "\<not> path_exists t ?r" and
      ih: "if path_exists t (?c c)
           then \<exists>k\<ge>c + 1. ?r = ?c k \<and> (\<forall>j. c + 1 \<le> j \<and> j < k \<longrightarrow> path_exists t (?c j))
           else ?r = ?c c"
      by blast+
    have "\<exists>k\<ge>c. ?r = ?c k \<and> (\<forall>j. c \<le> j \<and> j < k \<longrightarrow> path_exists t (?c j))"
    proof (cases "path_exists t (?c c)")
      case False
      with ih have "?r = ?c c" by simp
      then show ?thesis by (intro exI[of _ c]) auto
    next
      case ex: True
      with ih obtain k where k: "c + 1 \<le> k" "?r = ?c k"
        "\<forall>j. c + 1 \<le> j \<and> j < k \<longrightarrow> path_exists t (?c j)" by auto
      have "path_exists t (?c j)" if "c \<le> j" "j < k" for j
      proof (cases "j = c")
        case True
        then show ?thesis using ex by simp
      next
        case False
        then show ?thesis using k(3) that by simp
      qed
      then show ?thesis using k(1,2) by (intro exI[of _ k]) simp
    qed
    then show ?thesis using True free unfolding r by simp
  qed
qed



lemma resolve_dest_no_conflict:
  "\<not> path_exists t (out @ [n]) \<Longrightarrow> resolve_dest t out n = out @ [n]"
  by (simp add: resolve_dest_def Let_def)

lemma resolve_dest_conflict:
  assumes "path_exists t (out @ [n])"
  shows "\<exists>k\<ge>1. resolve_dest t out n = out @ [stem_of n @ ''_'' @ str_of_nat k @ suffix_of n] \<and>
           (\<forall>j. 1 \<le> j \<and> j < k \<longrightarrow>
              path_exists t (out @ [stem_of n @ ''_'' @ str_of_nat j @ suffix_of n]))"
  using conflict_loop_spec[of t out "stem_of n" "suffix_of n" "out @ [n]" 1] assms
  by (simp add: resolve_dest_def Let_def)

lemma resolve_dest_shape:
  "\<exists>x. resolve_dest t out n = out @ [x] \<and>
       (x = n \<or> (\<exists>k\<ge>1. x = stem_of n @ ''_'' @ str_of_nat k @ suffix_of n))"
proof (cases "path_exists t (out @ [n])")
  case True
  from resolve_dest_conflict[OF this] show ?thesis by blast
next
  case False
  then show ?thesis by (simp add: resolve_dest_no_conflict)
qed

lemma resolve_dest_not_wrapper:
  assumes "n \<noteq> ''artifact.zip''"
  shows "name_of (resolve_dest t out n) \<noteq> ''artifact.zip''"
proof -
  from resolve_dest_shape[of t out n] obtain x where
    x: "resolve_dest t out n = out @ [x]"
       "x = n \<or> (\<exists>k\<ge>1. x = stem_of n @ ''_'' @ str_of_nat k @ suffix_of n)" by blast
  have "x \<noteq> ''artifact.zip''"
  proof
    assume e: "x = ''artifact.zip''"
    with x(2) assms obtain k where "''artifact.zip'' = stem_of n @ ''_'' @ str_of_nat k @ suffix_of n"
      by auto
    then have "CHR ''_'' \<in> set ''artifact.zip''"
      by (metis append_Cons in_set_conv_decomp)
    then show False by simp
  qed
  then show ?thesis using x(1) by (simp add: name_of_def)
qed





lemmas eval_defs =
  example_world_def empty_world_def example_zip_def
  mkdir_parents_def extract_member_def rglob_def emit_def unlink_tmp_def
  resolve_dest_def conflict_loop.simps str_of_nat.simps digit_char_def is_file_def
  path_exists_def name_of_def stem_of_def suffix_of_def rfind_dot_def Let_def



subsection \<open>The empty payload\<close>

text \<open>
  Claim C7. When the download succeeds with a payload of zero bytes, \<open>download_zipfile\<close>
  returns the empty list after one warning and raises nothing: the archive is not opened,
  no temporary extraction directory is made, the temporary file is removed, and the
  destination directory holds what it held before (only the directory itself and its
  missing parents were made).
\<close>

theorem download_zipfile_empty_payload:
  assumes "mkdir_parents (disk w) output_dir = (d1, None)"
    and "map_of (archive_replies w) download_url = Some (Ok (0, arch))"
  shows "download_zipfile download_url output_dir flatten w =
           (Return [],
            w\<lparr>disk := d1, tmp_path := None,
              events := events w @ [HttpGet download_url, LogWarning ''Downloaded file is empty!'']\<rparr>)
         \<and> rglob d1 output_dir = rglob (disk w) output_dir
         \<and> (\<forall>p. map_of (disk w) p \<noteq> None \<longrightarrow> map_of d1 p = map_of (disk w) p)"
proof (intro conjI allI impI)
  show "download_zipfile download_url output_dir flatten w =
           (Return [],
            w\<lparr>disk := d1, tmp_path := None,
              events := events w @ [HttpGet download_url, LogWarning ''Downloaded file is empty!'']\<rparr>)"
    using assms by (simp add: download_zipfile_def emit_def unlink_tmp_def)
  show "rglob d1 output_dir = rglob (disk w) output_dir"
    using assms(1) by (rule mkdir_parents_rglob)
  show "map_of d1 p = map_of (disk w) p" if "map_of (disk w) p \<noteq> None" for p
    using assms(1) that by (rule mkdir_parents_map_of)
qed

theorem download_zipfile_empty_payload_witness:
  "download_zipfile ''u'' [''out''] True
     (empty_world\<lparr>disk := [([''out''], Dir), ([''out'', ''old.txt''], File ''x'')],
                  archive_replies := [(''u'', Ok (0, NotAZip))]\<rparr>)
   = (Return [],
      empty_world\<lparr>disk := [([''out''], Dir), ([''out'', ''old.txt''], File ''x'')],
                  archive_replies := [(''u'', Ok (0, NotAZip))],
                  tmp_path := None,
                  events := [HttpGet ''u'', LogWarning ''Downloaded file is empty!'']\<rparr>)"
proof -
  let ?w = "empty_world\<lparr>disk := [([''out''], Dir), ([''out'', ''old.txt''], File ''x'')],
                  archive_replies := [(''u'', Ok (0, NotAZip))]\<rparr>"
  have a: "mkdir_parents (disk ?w) [''out''] = ([([''out''], Dir), ([''out'', ''old.txt''], File ''x'')], None)"
    by (simp add: mkdir_parents_def empty_world_def)
  have b: "map_of (archive_replies ?w) ''u'' = Some (Ok (0, NotAZip))"
    by (simp add: empty_world_def)
  from download_zipfile_empty_payload[OF a b, of True]
  show ?thesis by (simp add: empty_world_def)
qed

subsection \<open>Flatten mode\<close>









subsection \<open>Cleaning up after a failure\<close>

lemmas run_defs =
  download_artifacts_def resolve_token_def fetch_and_wait_def get_workflow_run_def
  run_api_url_def artifacts_api_url_def check_conclusion_def dict_get_def has_key_def
  send_notification_def list_and_download_def list_artifacts_def iterdir_def is_dir_def
  download_zipfile_def scenario_world_def run_success_def

lemma download_zipfile_unlinks_archive:
  assumes "mkdir_parents (disk w) out = (d1, None)"
  shows "tmp_path (snd (download_zipfile url out fl w)) = None"
  using assms
  by (auto simp: download_zipfile_def emit_def unlink_tmp_def Let_def
           split: prod.splits option.splits reply.splits archive.splits if_splits)

lemma download_zipfile_Return_removes_temp_dir:
  assumes "download_zipfile url out fl w = (Return files, w')" "temp_extract_dir w = None"
  shows "temp_extract_dir w' = None"
  using assms
  by (auto simp: download_zipfile_def emit_def unlink_tmp_def Let_def
           split: prod.splits option.splits reply.splits archive.splits if_splits)

text \<open>
  Claim C3. The temporary archive file is removed on every path (the lemmas above), and
  the temporary extraction directory is removed when \<open>download_zipfile\<close> returns. When a
  member of the archive cannot be read, \<open>extractall\<close> raises after the directory was made:
  the exception leaves through the \<open>except\<close> and \<open>finally\<close> clauses, which remove the
  archive file only, and the directory stays with what was extracted so far.
\<close>

theorem extraction_failure_leaves_temp_dir:
  "download_zipfile ''u'' [''out''] True broken_world =
     (Raise BadZipFile,
      broken_world\<lparr>disk := [([''out''], Dir)],
                    temp_extract_dir := Some [([''run.log''], File ''new'')],
                    events := [HttpGet ''u'', LogError ''Failed to extract zip file'']\<rparr>) \<and>
   tmp_path (snd (download_zipfile ''u'' [''out''] True broken_world)) = None \<and>
   temp_extract_dir (snd (download_zipfile ''u'' [''out''] True broken_world)) =
     Some [([''run.log''], File ''new'')]"
  by (simp add: download_zipfile_def broken_world_def eval_defs)


subsection \<open>Without flattening\<close>











subsection \<open>Artifacts that are already there\<close>

lemma download_loop_skip:
  assumes "already_downloaded (disk w) (output_path @ [name])"
  shows "download_loop False output_path ((name, url) # rest) total_files w =
         download_loop False output_path rest total_files w"
  using assms by (simp add: already_downloaded_def)

lemma download_loop_all_skipped:
  "(\<forall>a\<in>set arts. already_downloaded (disk w) (output_path @ [fst a])) \<Longrightarrow>
   download_loop False output_path arts total_files w = (Return total_files, w)"
proof (induction arts)
  case Nil
  then show ?case by simp
next
  case (Cons a arts)
  obtain name url where a: "a = (name, url)" by (cases a)
  have "already_downloaded (disk w) (output_path @ [name])" using Cons.prems a by simp
  then have "download_loop False output_path (a # arts) total_files w =
             download_loop False output_path arts total_files w"
    unfolding a by (rule download_loop_skip)
  then show ?case using Cons by simp
qed

text \<open>
  Claim C8. With flattening off, an artifact whose subdirectory exists and has an entry is
  passed over: the loop goes on with the remaining artifacts in their order, in the same
  world (no request, no event, no change of the disk) and with the same count; a listing
  of which every artifact is already there returns normally without any download.
\<close>

theorem skip_already_downloaded:
  "(already_downloaded (disk w) (output_path @ [name]) \<longrightarrow>
      download_loop False output_path ((name, url) # rest) total_files w =
      download_loop False output_path rest total_files w) \<and>
   ((\<forall>a\<in>set arts. already_downloaded (disk w) (output_path @ [fst a])) \<longrightarrow>
      download_loop False output_path arts total_files w = (Return total_files, w))"
  using download_loop_skip download_loop_all_skipped by blast

theorem skip_already_downloaded_witness:
  "already_downloaded
     [([''out''], Dir), ([''out'', ''logs''], Dir), ([''out'', ''logs'', ''run.log''], File ''old'')]
     [''out'', ''logs''] \<and>
   download_loop False [''out''] [(''logs'', ''dl/logs''), (''build'', ''dl/build'')] 0
     (scenario_world\<lparr>disk := [([''out''], Dir), ([''out'', ''logs''], Dir),
                                ([''out'', ''logs'', ''run.log''], File ''old'')]\<rparr>) =
   (Return 1,
    scenario_world\<lparr>disk := [([''out''], Dir), ([''out'', ''logs''], Dir),
                               ([''out'', ''logs'', ''run.log''], File ''old''),
                               ([''out'', ''build''], Dir),
                               ([''out'', ''build'', ''app.bin''], File ''bin'')],
                    events := [HttpGet ''dl/build'']\<rparr>)"
proof -
  let ?d = "[([''out''], Dir), ([''out'', ''logs''], Dir), ([''out'', ''logs'', ''run.log''], File ''old'')]"
  let ?w = "scenario_world\<lparr>disk := ?d\<rparr>"
  have a: "already_downloaded ?d [''out'', ''logs'']"
    by (simp add: already_downloaded_def path_exists_def is_dir_def iterdir_def)
  then have "already_downloaded (disk ?w) ([''out''] @ [''logs''])" by simp
  with skip_already_downloaded[of ?w "[''out'']" "''logs''" "''dl/logs''" "[(''build'', ''dl/build'')]" 0]
  have "download_loop False [''out''] [(''logs'', ''dl/logs''), (''build'', ''dl/build'')] 0 ?w =
        download_loop False [''out''] [(''build'', ''dl/build'')] 0 ?w"
    by blast
  also have "\<dots> = (Return 1,
    scenario_world\<lparr>disk := [([''out''], Dir), ([''out'', ''logs''], Dir),
                               ([''out'', ''logs'', ''run.log''], File ''old''),
                               ([''out'', ''build''], Dir),
                               ([''out'', ''build'', ''app.bin''], File ''bin'')],
                    events := [HttpGet ''dl/build'']\<rparr>)"
    by (simp add: run_defs eval_defs)
  finally show ?thesis using a by simp
qed

subsection \<open>Polling with a short timeout\<close>

lemma new_events_append [simp]:
  "events w' = events w @ evs \<Longrightarrow> new_events w w' = evs"
  by (simp add: new_events_def)






subsection \<open>What the first fetch and the wait do\<close>

lemma get_workflow_run_effect:
  assumes "get_workflow_run repo run_id token w = (x, w1)"
  shows "events w1 = events w @ [HttpGet (run_api_url repo run_id)] \<and> disk w1 = disk w \<and>
         (x = OutOfScript \<or> x = Raise HTTPError \<or> (\<exists>run. x = Return run))"
  using assms
  by (auto simp: get_workflow_run_def emit_def Let_def split: list.splits reply.splits)

lemma wait_loop_effect:
  "wait_loop repo run_id token poll_interval timeout start_time w = (r, w') \<Longrightarrow>
   \<exists>evs. events w' = events w @ evs \<and> list_all (is_run_fetch repo run_id) evs \<and>
         disk w' = disk w"
proof (induction repo run_id token poll_interval timeout start_time w arbitrary: r w'
       rule: wait_loop.induct)
  case (1 repo run_id token poll_interval timeout start_time w)
  obtain x w1 where g: "get_workflow_run repo run_id token w = (x, w1)" by fastforce
  from get_workflow_run_effect[OF g] have
    ev1: "events w1 = events w @ [HttpGet (run_api_url repo run_id)]" and d1: "disk w1 = disk w"
    and x: "x = OutOfScript \<or> x = Raise HTTPError \<or> (\<exists>run. x = Return run)"
    by blast+
  note step = "1.prems"[unfolded wait_loop.simps[of repo run_id token poll_interval timeout start_time w] g]
  show ?case
  proof (cases "\<exists>run. x = Return run \<and> dict_get run ''status'' \<noteq> JStr ''completed'' \<and>
                  \<not> clock w1 - start_time \<ge> real_of_int timeout \<and>
                  \<not> (poll_interval > max_sleep \<or> poll_interval < - max_sleep) \<and>
                  \<not> poll_interval < 0")
    case True
    then obtain run where run: "x = Return run" "dict_get run ''status'' \<noteq> JStr ''completed''"
      "\<not> clock w1 - start_time \<ge> real_of_int timeout"
      "\<not> (poll_interval > max_sleep \<or> poll_interval < - max_sleep)"
      "\<not> poll_interval < 0" by blast
    let ?w2 = "emit (Sleep poll_interval) (w1\<lparr>clock := clock w1 + real_of_int poll_interval\<rparr>)"
    from step run have
      rec: "wait_loop repo run_id token poll_interval timeout start_time ?w2 = (r, w')"
      by (simp add: Let_def)
    from "1.IH"[OF g[symmetric] run(1) run(2) refl run(3) run(4) run(5) rec] obtain evs where
      evs: "events w' = events ?w2 @ evs" "list_all (is_run_fetch repo run_id) evs"
        "disk w' = disk ?w2" by blast
    have "events w' = events w @ (HttpGet (run_api_url repo run_id) # Sleep poll_interval # evs)"
      using evs(1) ev1 by (simp add: emit_def)
    moreover have "list_all (is_run_fetch repo run_id)
                     (HttpGet (run_api_url repo run_id) # Sleep poll_interval # evs)"
      using evs(2) by simp
    moreover have "disk w' = disk w" using evs(3) d1 by (simp add: emit_def)
    ultimately show ?thesis by blast
  next
    case False
    with step x ev1 d1 show ?thesis
      by (auto simp: Let_def emit_def send_notification_def split: if_splits)
  qed
qed

lemma fetch_and_wait_effect:
  assumes "fetch_and_wait repo run_id token wait poll_interval timeout w = (r, w1)"
  shows "\<exists>evs. events w1 = events w @ evs \<and> list_all (is_run_fetch repo run_id) evs \<and>
           disk w1 = disk w"
proof -
  obtain x w0 where g: "get_workflow_run repo run_id token w = (x, w0)" by fastforce
  from get_workflow_run_effect[OF g] have
    ev0: "events w0 = events w @ [HttpGet (run_api_url repo run_id)]" and d0: "disk w0 = disk w"
    and x: "x = OutOfScript \<or> x = Raise HTTPError \<or> (\<exists>run. x = Return run)"
    by blast+
  note step = assms[unfolded fetch_and_wait_def g]
  show ?thesis
  proof (cases "\<exists>run. x = Return run \<and>
                  (has_key run ''run_number'' \<and> has_key run ''name'' \<and>
                   has_key run ''status'' \<and> has_key run ''conclusion'') \<and>
                  wait \<and> dict_get run ''status'' \<noteq> JStr ''completed''")
    case True
    then obtain run where run: "x = Return run"
      "has_key run ''run_number'' \<and> has_key run ''name'' \<and>
       has_key run ''status'' \<and> has_key run ''conclusion''"
      "wait" "dict_get run ''status'' \<noteq> JStr ''completed''" by blast
    obtain y w2 where wl: "wait_for_workflow_completion repo run_id token poll_interval timeout w0 = (y, w2)"
      by fastforce
    from wait_loop_effect[OF wl[unfolded wait_for_workflow_completion_def]] obtain evs where
      evs: "events w2 = events w0 @ evs" "list_all (is_run_fetch repo run_id) evs"
        "disk w2 = disk w0" by blast
    from step run wl have
      "(r, w1) = (y, w2) \<or>
       (r, w1) = (Raise (SystemExit 1),
                  emit (LogError ''Workflow did not complete within timeout'') w2)"
      by (auto split: outcome.splits if_splits)
    then show ?thesis
    proof
      assume "(r, w1) = (y, w2)"
      then have "events w1 = events w @ (HttpGet (run_api_url repo run_id) # evs)" "disk w1 = disk w"
        using evs ev0 d0 by simp_all
      moreover have "list_all (is_run_fetch repo run_id) (HttpGet (run_api_url repo run_id) # evs)"
        using evs(2) by simp
      ultimately show ?thesis by blast
    next
      assume "(r, w1) = (Raise (SystemExit 1),
                  emit (LogError ''Workflow did not complete within timeout'') w2)"
      then have "events w1 = events w @ (HttpGet (run_api_url repo run_id) # evs @
                    [LogError ''Workflow did not complete within timeout''])" "disk w1 = disk w"
        using evs ev0 d0 by (simp_all add: emit_def)
      moreover have "list_all (is_run_fetch repo run_id) (HttpGet (run_api_url repo run_id) # evs @
                    [LogError ''Workflow did not complete within timeout''])"
        using evs(2) by simp
      ultimately show ?thesis by blast
    qed
  next
    case False
    with step x ev0 d0 show ?thesis
      by (auto simp: emit_def split: if_splits)
  qed
qed

lemma artifacts_url_not_run_url: "artifacts_api_url repo run_id \<noteq> run_api_url repo run_id"
  by (simp add: artifacts_api_url_def)

subsection \<open>Conclusions other than success\<close>

text \<open>
  Claim C6. When the run obtained by the first fetch and the optional wait has a
  conclusion other than \<open>success\<close> (and not absent), \<open>download_artifacts\<close> logs the error,
  sends the failure notification and exits with code 1. Up to then every request went to
  the run endpoint: the artifacts listing was never requested, nothing was downloaded and
  the disk is untouched.
\<close>

theorem failed_conclusion_stops_before_listing:
  assumes "resolve_token token w = Inr tok"
    and "fetch_and_wait repo run_id tok wait poll_interval timeout w = (Return run, w1)"
    and "dict_get run ''conclusion'' \<noteq> JNull"
    and "dict_get run ''conclusion'' \<noteq> JStr ''success''"
  shows "\<exists>w'. download_artifacts repo run_id output_dir token flatten wait poll_interval timeout w =
                (Raise (SystemExit 1), w') \<and>
              w' = w1\<lparr>events := events w1 @ [LogError ''Workflow concluded with status'',
                                               Notify ''Workflow Failed'']\<rparr> \<and>
              (\<exists>evs. new_events w w' = evs @ [LogError ''Workflow concluded with status'',
                                               Notify ''Workflow Failed'']) \<and>
              list_all (is_run_fetch repo run_id) (new_events w w') \<and>
              HttpGet (artifacts_api_url repo run_id) \<notin> set (new_events w w') \<and>
              disk w' = disk w"
proof -
  let ?w' = "w1\<lparr>events := events w1 @ [LogError ''Workflow concluded with status'',
                                        Notify ''Workflow Failed'']\<rparr>"
  from fetch_and_wait_effect[OF assms(2)] obtain evs where
    evs: "events w1 = events w @ evs" "list_all (is_run_fetch repo run_id) evs" "disk w1 = disk w"
    by blast
  have run: "download_artifacts repo run_id output_dir token flatten wait poll_interval timeout w =
                (Raise (SystemExit 1), ?w')"
    using assms
    by (simp add: download_artifacts_def check_conclusion_def send_notification_def emit_def Let_def)
  have ne: "new_events w ?w' = evs @ [LogError ''Workflow concluded with status'',
                                       Notify ''Workflow Failed'']"
    using evs(1) by (simp add: new_events_def)
  have all: "list_all (is_run_fetch repo run_id) (new_events w ?w')"
    unfolding ne using evs(2) by simp
  have "\<not> is_run_fetch repo run_id (HttpGet (artifacts_api_url repo run_id))"
    by (simp add: artifacts_url_not_run_url)
  then have no: "HttpGet (artifacts_api_url repo run_id) \<notin> set (new_events w ?w')"
    using all by (auto simp: list_all_iff)
  show ?thesis using run ne all no evs(3) by auto
qed

theorem failed_conclusion_stops_before_listing_witness:
  "download_artifacts ''acme/app'' ''123'' None (Some ''tok'') True True 60 1800
     (scenario_world\<lparr>run_replies := [(5, Ok run_in_progress), (3, Ok run_failure)]\<rparr>) =
   (Raise (SystemExit 1),
    scenario_world\<lparr>run_replies := [], clock := 8,
      events := [HttpGet ''https://api.github.com/repos/acme/app/actions/runs/123'',
                 HttpGet ''https://api.github.com/repos/acme/app/actions/runs/123'',
                 LogError ''Workflow concluded with status'', Notify ''Workflow Failed'']\<rparr>)"
proof -
  let ?w = "scenario_world\<lparr>run_replies := [(5, Ok run_in_progress), (3, Ok run_failure)]\<rparr>"
  let ?w1 = "scenario_world\<lparr>run_replies := [], clock := 8,
      events := [HttpGet ''https://api.github.com/repos/acme/app/actions/runs/123'',
                 HttpGet ''https://api.github.com/repos/acme/app/actions/runs/123'']\<rparr>"
  have a: "resolve_token (Some ''tok'') ?w = Inr ''tok''" by (simp add: resolve_token_def)
  have b: "fetch_and_wait ''acme/app'' ''123'' ''tok'' True 60 1800 ?w = (Return run_failure, ?w1)"
    by (simp add: fetch_and_wait_def wait_for_workflow_completion_def wait_loop.simps
        get_workflow_run_def run_api_url_def emit_def dict_get_def has_key_def max_sleep_def
        run_in_progress_def run_failure_def scenario_world_def empty_world_def Let_def)
  have c: "dict_get run_failure ''conclusion'' \<noteq> JNull"
          "dict_get run_failure ''conclusion'' \<noteq> JStr ''success''"
    by (simp_all add: dict_get_def run_failure_def)
  from failed_conclusion_stops_before_listing[OF a b c, of None True]
  show ?thesis by (auto simp: scenario_world_def empty_world_def)
qed

text \<open>
  Claim C10. Without waiting, a fetched run that is not completed, and whose conclusion
  is therefore null, makes \<open>download_artifacts\<close> exit with code 1 through the branch for an
  unknown status: the only request is the one for the run, nothing is listed or
  downloaded.
\<close>

theorem no_wait_on_running_run_exits:
  assumes "resolve_token token w = Inr tok"
    and "run_replies w = (s, Ok run) # rest"
    and "has_key run ''run_number''" and "has_key run ''name''"
    and "has_key run ''status''" and "has_key run ''conclusion''"
    and "dict_get run ''status'' \<noteq> JStr ''completed''"
    and "dict_get run ''conclusion'' = JNull"
  shows "download_artifacts repo run_id output_dir token flatten False poll_interval timeout w =
           (Raise (SystemExit 1),
            w\<lparr>run_replies := rest, clock := clock w + s,
              events := events w @ [HttpGet (run_api_url repo run_id),
                                    LogError ''Workflow status is unknown'']\<rparr>)"
  using assms
  by (simp add: download_artifacts_def fetch_and_wait_def get_workflow_run_def
      check_conclusion_def emit_def Let_def)

theorem no_wait_on_running_run_exits_witness:
  "download_artifacts ''acme/app'' ''123'' None (Some ''tok'') True False 60 1800 polling_world =
     (Raise (SystemExit 1),
      polling_world\<lparr>run_replies := [(3, Ok run_in_progress)], clock := 5,
        events := [HttpGet ''https://api.github.com/repos/acme/app/actions/runs/123'',
                   LogError ''Workflow status is unknown'']\<rparr>)"
proof -
  have a: "resolve_token (Some ''tok'') polling_world = Inr ''tok''"
    by (simp add: resolve_token_def)
  have b: "run_replies polling_world = (5, Ok run_in_progress) # [(3, Ok run_in_progress)]"
    by (simp add: polling_world_def scenario_world_def empty_world_def)
  have k: "has_key run_in_progress ''run_number''" "has_key run_in_progress ''name''"
          "has_key run_in_progress ''status''" "has_key run_in_progress ''conclusion''"
    by (simp_all add: has_key_def run_in_progress_def)
  have c: "dict_get run_in_progress ''status'' \<noteq> JStr ''completed''"
          "dict_get run_in_progress ''conclusion'' = JNull"
    by (simp_all add: dict_get_def run_in_progress_def)
  from no_wait_on_running_run_exits[OF a b k c, of "''acme/app''" "''123''" None True 60 1800]
  show ?thesis
    by (simp add: run_api_url_def polling_world_def scenario_world_def empty_world_def)
qed

end
